theory Spec2Isabelle
  imports Complex_Main "HOL-Library.Sublist"
begin

section \<open>The installation progress pipeline of biglinux-welcome\<close>

text \<open>
  A shallow embedding of the installer pipeline of \<^verbatim>\<open>widgets.py\<close> (class
  \<^verbatim>\<open>InstallPanel\<close>) and \<^verbatim>\<open>window.py\<close> (\<^verbatim>\<open>_flush_line_buffer\<close>,
  \<^verbatim>\<open>_read_process_output\<close>, \<^verbatim>\<open>_perform_browser_install\<close>).

  Conventions of the model.
  \<^item> Byte strings and decoded text are both \<^typ>\<open>string\<close>: a text is represented by its
    UTF-8 bytes, so \<^verbatim>\<open>bytes.decode("utf-8", errors="replace")\<close> is the identity on
    well-formed input. The substitution of U+FFFD for malformed bytes changes neither
    whether a line is empty nor its ASCII content; it is not modelled.
  \<^item> \<^verbatim>\<open>str.lower\<close>, \<^verbatim>\<open>str.strip\<close> and the regular expression classes
    \<^verbatim>\<open>\d\<close> and \<^verbatim>\<open>\s\<close> are Python's on ASCII characters; every keyword
    of the program is ASCII.
  \<^item> The progress fractions are the decimal literals of the source, kept as exact
    rationals. All comparisons of the source are between such literals, where the
    order of the floating point values is the order of the decimals.
  \<^item> \<^verbatim>\<open>gettext\<close> is kept symbolic: a label is a message id with its arguments.
\<close>

subsection \<open>Python string operations\<close>

type_synonym bytes = string

definition LF :: char where "LF = CHR 0x0A"
definition CR :: char where "CR = CHR 0x0D"

text \<open>The character U+2026 (horizontal ellipsis) in UTF-8.\<close>
definition ellipsis :: string where
  "ellipsis = [CHR 0xE2, CHR 0x80, CHR 0xA6]"

definition ascii_uppercase :: string where
  "ascii_uppercase = ''ABCDEFGHIJKLMNOPQRSTUVWXYZ''"

definition ascii_lowercase :: string where
  "ascii_lowercase = ''abcdefghijklmnopqrstuvwxyz''"

definition lower_char :: "char \<Rightarrow> char" where
  "lower_char c =
     (case map_of (zip ascii_uppercase ascii_lowercase) c of None \<Rightarrow> c | Some l \<Rightarrow> l)"

text \<open>\<^verbatim>\<open>s.lower()\<close>\<close>
definition lower :: "string \<Rightarrow> string" where
  "lower s = map lower_char s"

text \<open>The ASCII characters for which \<^verbatim>\<open>str.isspace\<close> holds.\<close>
definition whitespace :: string where
  "whitespace = [CHR 0x09, CHR 0x0A, CHR 0x0B, CHR 0x0C, CHR 0x0D,
                 CHR 0x1C, CHR 0x1D, CHR 0x1E, CHR 0x1F, CHR 0x20]"

definition is_space :: "char \<Rightarrow> bool" where
  "is_space c = (c \<in> set whitespace)"

text \<open>\<^verbatim>\<open>s.strip()\<close>\<close>
definition strip :: "string \<Rightarrow> string" where
  "strip s = rev (dropWhile is_space (rev (dropWhile is_space s)))"

text \<open>\<^verbatim>\<open>s.startswith(p)\<close>\<close>
fun startswith :: "string \<Rightarrow> string \<Rightarrow> bool" where
  "startswith s [] = True"
| "startswith [] (p # ps) = False"
| "startswith (c # cs) (p # ps) = (c = p \<and> startswith cs ps)"

text \<open>\<^verbatim>\<open>sub in s\<close>\<close>
fun contains :: "string \<Rightarrow> string \<Rightarrow> bool" where
  "contains [] sub = (sub = [])"
| "contains (c # cs) sub = (startswith (c # cs) sub \<or> contains cs sub)"

text \<open>\<^verbatim>\<open>s.replace(old, new)\<close>: the occurrences of \<open>old\<close> are replaced from left to
  right, without overlap; for an empty \<open>old\<close>, \<open>new\<close> is put around every character.\<close>
function replace :: "string \<Rightarrow> string \<Rightarrow> string \<Rightarrow> string" where
  "replace s old new =
     (if old = [] then new @ concat (map (\<lambda>c. c # new) s)
      else (case s of
              [] \<Rightarrow> []
            | c # cs \<Rightarrow>
                if startswith s old then new @ replace (drop (length old) s) old new
                else c # replace cs old new))"
  by pat_completeness auto
termination
  by (relation "measure (\<lambda>(s, old, new). length s)") auto

definition digits :: string where
  "digits = ''0123456789''"

definition is_digit :: "char \<Rightarrow> bool" where
  "is_digit c = (c \<in> set digits)"

definition digit_val :: "char \<Rightarrow> nat" where
  "digit_val c = (case map_of (zip digits [0, 1, 2, 3, 4, 5, 6, 7, 8, 9]) c of None \<Rightarrow> 0 | Some d \<Rightarrow> d)"

text \<open>\<^verbatim>\<open>int(g)\<close> for a group \<open>g\<close> of decimal digits.\<close>
definition int_of_digits :: "string \<Rightarrow> nat" where
  "int_of_digits g = foldl (\<lambda>n c. 10 * n + digit_val c) 0 g"

subsection \<open>The line classifier\<close>

text \<open>\<^verbatim>\<open>InstallPanel._get_line_tag\<close>; \<open>None\<close> is Python's \<^verbatim>\<open>None\<close>.\<close>
definition get_line_tag :: "string \<Rightarrow> string option" where
  "get_line_tag line =
     (let lower = strip (lower line) in
      if contains lower ''error'' \<or> contains lower ''failed'' then Some ''error''
      else if contains lower ''successfully'' \<or> contains lower ''done'' then Some ''success''
      else if contains lower ''warning'' then Some ''warning''
      else if startswith lower ''installing'' \<or> startswith lower ''removing''
            \<or> startswith lower ''checking'' \<or> startswith lower ''resolving''
            \<or> startswith lower ''::'' then Some ''info''
      else if startswith lower ''package'' \<or> startswith lower ''total''
            \<or> startswith lower ''optional'' then Some ''dim''
      else None)"

subsection \<open>The milestone table\<close>

text \<open>\<^verbatim>\<open>InstallPanel._MILESTONES\<close>\<close>
definition MILESTONES :: "(string \<times> rat) list" where
  "MILESTONES =
     [(''synchronizing'', 0.05),
      (''resolving dependencies'', 0.10),
      (''looking for conflicting'', 0.15),
      (''retrieving'', 0.20),
      (''checking key'', 0.55),
      (''checking package integrity'', 0.60),
      (''loading package'', 0.65),
      (''checking for file conflicts'', 0.70),
      (''checking available disk space'', 0.75),
      (''processing package changes'', 0.80),
      (''installing'', 0.85),
      (''upgrading'', 0.85),
      (''running post-transaction hooks'', 0.95)]"

text \<open>\<^verbatim>\<open>InstallPanel._PHASE_LABELS\<close>, a dictionary of message ids.\<close>
definition PHASE_LABELS :: "(string \<times> string) list" where
  "PHASE_LABELS =
     [(''synchronizing'', ''Synchronizing databases'' @ ellipsis),
      (''resolving dependencies'', ''Resolving dependencies'' @ ellipsis),
      (''looking for conflicting'', ''Checking for conflicts'' @ ellipsis),
      (''retrieving'', ''Downloading packages'' @ ellipsis),
      (''checking key'', ''Verifying signatures'' @ ellipsis),
      (''checking package integrity'', ''Verifying integrity'' @ ellipsis),
      (''loading package'', ''Loading packages'' @ ellipsis),
      (''checking for file conflicts'', ''Checking for conflicts'' @ ellipsis),
      (''checking available disk space'', ''Checking disk space'' @ ellipsis),
      (''processing package changes'', ''Applying changes'' @ ellipsis),
      (''installing'', ''Installing'' @ ellipsis),
      (''upgrading'', ''Upgrading'' @ ellipsis),
      (''running post-transaction hooks'', ''Running post-install hooks'' @ ellipsis)]"

text \<open>\<^verbatim>\<open>InstallPanel._CANCEL_CUTOFF\<close>\<close>
definition CANCEL_CUTOFF :: rat where
  "CANCEL_CUTOFF = 0.80"

text \<open>The conditions of the table tests in \<^verbatim>\<open>test_widgets_window.py\<close> and of the
  specification: fractions in \<open>(0, 1]\<close>, and a strictly ascending list.\<close>
definition fractions_in_unit :: "(string \<times> rat) list \<Rightarrow> bool" where
  "fractions_in_unit ms = list_all (\<lambda>(keyword, fraction). 0 < fraction \<and> fraction \<le> 1) ms"

fun strictly_ascending :: "rat list \<Rightarrow> bool" where
  "strictly_ascending [] = True"
| "strictly_ascending [x] = True"
| "strictly_ascending (x # y # ys) = (x < y \<and> strictly_ascending (y # ys))"

fun ascending :: "rat list \<Rightarrow> bool" where
  "ascending [] = True"
| "ascending [x] = True"
| "ascending (x # y # ys) = (x \<le> y \<and> ascending (y # ys))"

subsection \<open>The download pattern\<close>

text \<open>
  \<^verbatim>\<open>_RE_DOWNLOAD = re.compile(r"(\d+(?:\.\d+)?\s*[KMG]iB/s).*?(\d{1,3})%")\<close>

  \<open>match_percent\<close> is the group \<^verbatim>\<open>(\d{1,3})%\<close> at the head of the text: the greedy
  quantifier tries three digits, then two, then one, each followed by the percent sign.
\<close>
definition percent_at :: "nat \<Rightarrow> string \<Rightarrow> bool" where
  "percent_at n s =
     (n < length s \<and> list_all is_digit (take n s) \<and> s ! n = CHR ''%'')"

definition match_percent :: "string \<Rightarrow> string option" where
  "match_percent s =
     (if percent_at 3 s then Some (take 3 s)
      else if percent_at 2 s then Some (take 2 s)
      else if percent_at 1 s then Some (take 1 s)
      else None)"

text \<open>\<^verbatim>\<open>.*?(\d{1,3})%\<close>: the lazy quantifier skips as few characters as possible, and
  the dot matches no line feed.\<close>
fun search_percent :: "string \<Rightarrow> string option" where
  "search_percent [] = None"
| "search_percent (c # cs) =
     (case match_percent (c # cs) of
        Some g \<Rightarrow> Some g
      | None \<Rightarrow> if c = LF then None else search_percent cs)"

text \<open>
  \<^verbatim>\<open>(\d+(?:\.\d+)?\s*[KMG]iB/s)\<close> at the head of the text: the matched group and the
  text after it. Each greedy part takes its longest run, and giving back a character of
  a run never helps, since the part that follows would have to start with a character of
  that run: a digit is not a dot, a white space or a unit letter, and a white space is not
  a unit letter.
\<close>
definition match_speed :: "string \<Rightarrow> (string \<times> string) option" where
  "match_speed s =
     (let int_part = takeWhile is_digit s; r1 = dropWhile is_digit s in
      if int_part = [] then None
      else
        let (frac_part, r2) =
              (case r1 of
                 [] \<Rightarrow> ([], r1)
               | c # t \<Rightarrow>
                   if c = CHR ''.'' \<and> takeWhile is_digit t \<noteq> []
                   then (c # takeWhile is_digit t, dropWhile is_digit t)
                   else ([], r1));
            spaces = takeWhile is_space r2;
            r3 = dropWhile is_space r2
        in if startswith r3 ''KiB/s'' \<or> startswith r3 ''MiB/s'' \<or> startswith r3 ''GiB/s''
           then Some (int_part @ frac_part @ spaces @ take 5 r3, drop 5 r3)
           else None)"

definition match_download :: "string \<Rightarrow> (string \<times> string) option" where
  "match_download s =
     (case match_speed s of
        None \<Rightarrow> None
      | Some (speed, rest) \<Rightarrow>
          (case search_percent rest of None \<Rightarrow> None | Some pct \<Rightarrow> Some (speed, pct)))"

text \<open>\<^verbatim>\<open>_RE_DOWNLOAD.search(line)\<close>: the match at the leftmost start, as the pair of
  \<^verbatim>\<open>group(1)\<close> and \<^verbatim>\<open>group(2)\<close>.\<close>
fun RE_DOWNLOAD_search :: "string \<Rightarrow> (string \<times> string) option" where
  "RE_DOWNLOAD_search [] = None"
| "RE_DOWNLOAD_search (c # cs) =
     (case match_download (c # cs) of
        Some m \<Rightarrow> Some m
      | None \<Rightarrow> RE_DOWNLOAD_search cs)"

subsection \<open>The install panel\<close>

text \<open>A label of the user interface: a message id of the catalogue, or a format with its
  arguments.\<close>
datatype label =
    Msg string
  | Installing_browser string
  | Downloading_name string
  | Downloading_speed nat string
  | Announce string int

text \<open>
  The state of an \<^verbatim>\<open>InstallPanel\<close> that the pipeline reads or writes.
  \<open>progress_fraction\<close> is the argument of the last \<^verbatim>\<open>self._progress.set_fraction\<close>;
  the percent label always renders the same number and is left out.
  \<open>cancel_callback_calls\<close> counts the calls of the cancel callback, which the window sets to
  \<^verbatim>\<open>_cancel_install\<close>.
\<close>
record install_panel =
  pulsing :: bool
  last_milestone :: rat
  cancelled :: bool
  progress_fraction :: rat
  subtitle :: label
  accessible_label :: label
  cancel_sensitive :: bool
  cancel_label :: label
  cancel_tooltip :: "label option"
  has_cancel_callback :: bool
  cancel_callback_calls :: nat
  log_buffer :: "(string \<times> string option) list"

text \<open>\<^verbatim>\<open>InstallPanel.__init__\<close>\<close>
definition InstallPanel :: "string \<Rightarrow> install_panel" where
  "InstallPanel browser_label =
     \<lparr> pulsing = False,
       last_milestone = 0,
       cancelled = False,
       progress_fraction = 0,
       subtitle = Msg (''Preparing download'' @ ellipsis),
       accessible_label = Installing_browser browser_label,
       cancel_sensitive = True,
       cancel_label = Msg ''Cancel'',
       cancel_tooltip = None,
       has_cancel_callback = False,
       cancel_callback_calls = 0,
       log_buffer = [] \<rparr>"

definition start_pulse :: "install_panel \<Rightarrow> install_panel" where
  "start_pulse p = p\<lparr>pulsing := True\<rparr>"

definition stop_pulse :: "install_panel \<Rightarrow> install_panel" where
  "stop_pulse p = p\<lparr>pulsing := False\<rparr>"

definition set_cancel_callback :: "install_panel \<Rightarrow> install_panel" where
  "set_cancel_callback p = p\<lparr>has_cancel_callback := True\<rparr>"

text \<open>The panel as \<^verbatim>\<open>WelcomeWindow._start_install\<close> leaves it.\<close>
definition start_install :: "string \<Rightarrow> install_panel" where
  "start_install browser_label = start_pulse (set_cancel_callback (InstallPanel browser_label))"

text \<open>\<^verbatim>\<open>InstallPanel.set_progress\<close>\<close>
definition set_progress :: "install_panel \<Rightarrow> rat \<Rightarrow> label option \<Rightarrow> install_panel" where
  "set_progress p fraction phase_text =
     (let p1 = stop_pulse p;
          clamped = max 0 (min 1 fraction);
          p2 = p1\<lparr>progress_fraction := clamped\<rparr>
      in case phase_text of None \<Rightarrow> p2 | Some t \<Rightarrow> p2\<lparr>subtitle := t\<rparr>)"

text \<open>The loop over the table in \<^verbatim>\<open>_parse_progress\<close>: the first entry, in table
  order, whose keyword is in the line and whose fraction exceeds the last milestone.\<close>
fun find_milestone :: "(string \<times> rat) list \<Rightarrow> string \<Rightarrow> rat \<Rightarrow> (string \<times> rat) option" where
  "find_milestone [] lower_line reached = None"
| "find_milestone ((keyword, fraction) # ms) lower_line reached =
     (if contains lower_line keyword \<and> fraction > reached then Some (keyword, fraction)
      else find_milestone ms lower_line reached)"

text \<open>The body of the loop at a match.\<close>
definition reach_milestone :: "install_panel \<Rightarrow> string \<Rightarrow> rat \<Rightarrow> install_panel" where
  "reach_milestone p keyword fraction =
     (let p1 = (stop_pulse (p\<lparr>last_milestone := fraction\<rparr>))\<lparr>progress_fraction := fraction\<rparr>;
          p2 = (case map_of PHASE_LABELS keyword of
                  None \<Rightarrow> p1
                | Some l \<Rightarrow>
                    if l \<noteq> [] then
                      p1\<lparr>subtitle := Msg l,
                         accessible_label := Announce l (\<lfloor>fraction * 100\<rfloor>)\<rparr>
                    else p1)
      in if fraction \<ge> CANCEL_CUTOFF
         then p2\<lparr>cancel_sensitive := False,
                 cancel_tooltip := Some (Msg ''Cannot cancel during installation'')\<rparr>
         else p2)"

text \<open>The download phase of \<^verbatim>\<open>_parse_progress\<close>, entered when no milestone matched.\<close>
definition download_phase :: "install_panel \<Rightarrow> string \<Rightarrow> install_panel" where
  "download_phase p line =
     (if contains (lower line) ''downloading'' then
        let name = strip (replace (strip line) ''downloading...'' []) in
        if name \<noteq> [] then p\<lparr>subtitle := Downloading_name name\<rparr> else p
      else
        (case RE_DOWNLOAD_search line of
           None \<Rightarrow> p
         | Some (speed, g2) \<Rightarrow>
             let pct = int_of_digits g2;
                 fraction = 0.20 + (of_nat pct / 100) * 0.35
             in (stop_pulse p)\<lparr>progress_fraction := fraction,
                                subtitle := Downloading_speed pct speed\<rparr>))"

text \<open>\<^verbatim>\<open>InstallPanel._parse_progress\<close>, which \<^verbatim>\<open>InstallPanel.parse_progress\<close>
  calls and does nothing else.\<close>
definition parse_progress :: "install_panel \<Rightarrow> string \<Rightarrow> install_panel" where
  "parse_progress p line =
     (case find_milestone MILESTONES (lower line) (last_milestone p) of
        Some (keyword, fraction) \<Rightarrow> reach_milestone p keyword fraction
      | None \<Rightarrow>
          if 0.05 \<le> last_milestone p \<and> last_milestone p < 0.55
          then download_phase p line
          else p)"

text \<open>\<^verbatim>\<open>InstallPanel.append_log\<close>\<close>
definition append_log :: "install_panel \<Rightarrow> string \<Rightarrow> install_panel" where
  "append_log p line =
     parse_progress (p\<lparr>log_buffer := log_buffer p @ [(line @ [LF], get_line_tag line)]\<rparr>) line"

text \<open>\<^verbatim>\<open>InstallPanel._on_cancel\<close>, the handler of the cancel button.\<close>
definition on_cancel :: "install_panel \<Rightarrow> install_panel" where
  "on_cancel p =
     (let p1 = p\<lparr>cancelled := True,
                 cancel_sensitive := False,
                 cancel_label := Msg (''Cancelling'' @ ellipsis),
                 subtitle := Msg (''Cancelling installation'' @ ellipsis)\<rparr>
      in if has_cancel_callback p1
         then p1\<lparr>cancel_callback_calls := cancel_callback_calls p1 + 1\<rparr>
         else p1)"

text \<open>A click on the cancel button: the toolkit emits \<^verbatim>\<open>clicked\<close> for a sensitive
  button only.\<close>
definition click_cancel :: "install_panel \<Rightarrow> install_panel" where
  "click_cancel p = (if cancel_sensitive p then on_cancel p else p)"

text \<open>What reaches the panel on the main loop during one installation: the two calls
  that the worker queues with \<^verbatim>\<open>GLib.idle_add\<close>, and the user's clicks.\<close>
datatype event = Append_log string | Parse_progress string | Click_cancel

fun handle :: "install_panel \<Rightarrow> event \<Rightarrow> install_panel" where
  "handle p (Append_log line) = append_log p line"
| "handle p (Parse_progress line) = parse_progress p line"
| "handle p Click_cancel = click_cancel p"

text \<open>The main loop handles the events in the order of their arrival.\<close>
definition run :: "install_panel \<Rightarrow> event list \<Rightarrow> install_panel" where
  "run p es = foldl handle p es"

subsection \<open>The line splitter\<close>

text \<open>\<^verbatim>\<open>b.decode("utf-8", errors="replace")\<close>, see the conventions above.\<close>
definition decode :: "bytes \<Rightarrow> string" where
  "decode b = b"

text \<open>\<^verbatim>\<open>buf.find(c)\<close> for a single byte \<open>c\<close>: the first index, or \<open>-1\<close>.\<close>
fun find_byte :: "bytes \<Rightarrow> char \<Rightarrow> int" where
  "find_byte [] c = - 1"
| "find_byte (b # bs) c =
     (if b = c then 0
      else (let i = find_byte bs c in if i < 0 then - 1 else i + 1))"

text \<open>The end of the loop body of \<^verbatim>\<open>_flush_line_buffer\<close>: the line is skipped, or
  queued for the panel before what the later iterations queue.\<close>
definition dispatch_line :: "bool \<Rightarrow> string \<Rightarrow> event list \<times> bytes \<Rightarrow> event list \<times> bytes" where
  "dispatch_line is_newline line later =
     (if line = [] \<or> startswith line ''STATUS:'' then later
      else if is_newline then (Append_log line # fst later, snd later)
      else (Parse_progress line # fst later, snd later))"

text \<open>\<^verbatim>\<open>_flush_line_buffer\<close>: the calls queued with \<^verbatim>\<open>GLib.idle_add\<close>, in order,
  and the returned remainder.\<close>
function flush_line_buffer :: "bytes \<Rightarrow> event list \<times> bytes" where
  "flush_line_buffer buf =
     (if LF \<in> set buf \<or> CR \<in> set buf then
        let idx_n = find_byte buf LF;
            idx_r = find_byte buf CR;
            is_newline = (idx_n \<ge> 0 \<and> (idx_r < 0 \<or> idx_n \<le> idx_r))
        in if is_newline then
             dispatch_line is_newline (decode (take (nat idx_n) buf))
               (flush_line_buffer (drop (nat (idx_n + 1)) buf))
           else if idx_r \<ge> 0 then
             dispatch_line is_newline (decode (take (nat idx_r) buf))
               (flush_line_buffer (drop (nat (idx_r + 1)) buf))
           else ([], buf)
      else ([], buf))"
  by pat_completeness auto
termination
  by (relation "measure length") (auto dest!: length_pos_if_in_set)

text \<open>One turn of the reading loop on a chunk: \<^verbatim>\<open>buf += chunk\<close>, then
  \<^verbatim>\<open>buf = _flush_line_buffer(buf, panel)\<close>; and the turns for a list of chunks.\<close>
definition feed :: "bytes \<Rightarrow> bytes \<Rightarrow> event list \<times> bytes" where
  "feed buf chunk = flush_line_buffer (buf @ chunk)"

fun feed_chunks :: "bytes \<Rightarrow> bytes list \<Rightarrow> event list \<times> bytes" where
  "feed_chunks buf [] = ([], buf)"
| "feed_chunks buf (chunk # chunks) =
     (let (events, buf1) = feed buf chunk;
          (later, buf2) = feed_chunks buf1 chunks
      in (events @ later, buf2))"

subsection \<open>The process runner\<close>

text \<open>
  What one turn of the loop of \<^verbatim>\<open>_read_process_output\<close> meets: \<^verbatim>\<open>select\<close>
  times out after five seconds; or \<^verbatim>\<open>os.read\<close> returns a chunk (the empty chunk at the
  end of the stream), with the value of \<^verbatim>\<open>panel.cancelled\<close> read after it; or one of
  the two calls raises \<^verbatim>\<open>OSError\<close>. A chunk has at most 4096 bytes in the source; the
  model admits a chunk of any length.
\<close>
datatype read_event = Stall | Data bytes bool | Read_OSError string

text \<open>How the loop is left. \<open>Waiting\<close>: the listed turns are over and the loop is still
  in \<^verbatim>\<open>select\<close>.\<close>
datatype reader_end = End_of_stream | Terminated | Raised_OSError string | Waiting

definition still_working :: string where
  "still_working = ''Still working'' @ ellipsis"

text \<open>At the end of the stream, the loop queues what is left in the buffer as a last log
  line, unless it is empty or a control line.\<close>
definition end_of_stream_flush :: "bytes \<Rightarrow> event list" where
  "end_of_stream_flush buf =
     (if buf \<noteq> [] then
        (let line = decode buf in
         if \<not> startswith line ''STATUS:'' then [Append_log line] else [])
      else [])"

text \<open>\<^verbatim>\<open>WelcomeWindow._read_process_output\<close>, from the values of \<^verbatim>\<open>buf\<close> and
  \<^verbatim>\<open>stall_notified\<close>: the calls queued for the panel, and how the loop is left.\<close>
fun read_process_output :: "bytes \<Rightarrow> bool \<Rightarrow> read_event list \<Rightarrow> event list \<times> reader_end" where
  "read_process_output buf stall_notified [] = ([], Waiting)"
| "read_process_output buf stall_notified (Stall # turns) =
     (let (later, e) = read_process_output buf True turns
      in if \<not> stall_notified then (Append_log still_working # later, e) else (later, e))"
| "read_process_output buf stall_notified (Read_OSError msg # turns) = ([], Raised_OSError msg)"
| "read_process_output buf stall_notified (Data chunk cancelled_now # turns) =
     (if chunk = [] then (end_of_stream_flush buf, End_of_stream)
      else if cancelled_now then ([], Terminated)
      else
        let (events, buf1) = feed buf chunk;
            (later, e) = read_process_output buf1 False turns
        in (events @ later, e))"

datatype popen_result = Popen_OSError string | Popen_ok bool

datatype wait_result = Returncode int | TimeoutExpired string

text \<open>
  The three ends of \<^verbatim>\<open>_perform_browser_install\<close>:
  \<^item> \<open>Cancelled\<close>: \<^verbatim>\<open>panel.cancelled\<close> holds; \<^verbatim>\<open>_finish_install\<close> is queued and the
    function returns;
  \<^item> \<open>Succeeded\<close>: \<^verbatim>\<open>_post_install_set_default\<close> runs, then \<^verbatim>\<open>_finish_install\<close> is
    queued;
  \<^item> \<open>Failed\<close>: \<^verbatim>\<open>panel.set_error\<close> is queued.
\<close>
datatype outcome = Succeeded | Failed | Cancelled

text \<open>
  The \<^verbatim>\<open>try\<close> block of \<^verbatim>\<open>_perform_browser_install\<close>: the log line queued by the
  \<^verbatim>\<open>except\<close> clause, if any, and the value of \<^verbatim>\<open>success\<close>; \<open>None\<close> while the reading
  loop has not returned. \<open>Popen_ok has_stdout\<close>: the child was spawned, and
  \<^verbatim>\<open>proc.stdout\<close> is not \<^verbatim>\<open>None\<close>. \<open>TimeoutExpired\<close>: \<^verbatim>\<open>proc.wait(timeout=600)\<close>
  raised. \<open>cancelled_at_wait\<close> is the value of \<^verbatim>\<open>panel.cancelled\<close> read after the wait.
\<close>
definition try_install ::
  "popen_result \<Rightarrow> reader_end \<Rightarrow> wait_result \<Rightarrow> bool \<Rightarrow> (event list \<times> bool) option" where
  "try_install popen reader waited cancelled_at_wait =
     (case popen of
        Popen_OSError msg \<Rightarrow> Some ([Append_log msg], False)
      | Popen_ok has_stdout \<Rightarrow>
          if \<not> has_stdout then Some ([Append_log ''Failed to capture process output''], False)
          else
            (case reader of
               Waiting \<Rightarrow> None
             | Raised_OSError msg \<Rightarrow> Some ([Append_log msg], False)
             | _ \<Rightarrow>
                 (case waited of
                    TimeoutExpired msg \<Rightarrow> Some ([Append_log msg], False)
                  | Returncode returncode \<Rightarrow>
                      Some ([], returncode = 0 \<and> \<not> cancelled_at_wait))))"

text \<open>\<^verbatim>\<open>WelcomeWindow._perform_browser_install\<close>; \<open>cancelled_at_end\<close> is the value of
  \<^verbatim>\<open>panel.cancelled\<close> read after the \<^verbatim>\<open>try\<close> block.\<close>
definition perform_browser_install ::
  "popen_result \<Rightarrow> reader_end \<Rightarrow> wait_result \<Rightarrow> bool \<Rightarrow> bool \<Rightarrow> (event list \<times> outcome) option" where
  "perform_browser_install popen reader waited cancelled_at_wait cancelled_at_end =
     (case try_install popen reader waited cancelled_at_wait of
        None \<Rightarrow> None
      | Some (logged, success) \<Rightarrow>
          if cancelled_at_end then Some (logged, Cancelled)
          else if success then Some (logged, Succeeded)
          else Some (logged, Failed))"

subsection \<open>The specification's wording, for comparison\<close>

text \<open>
  The classifier as the specification words it: rules tried in order, each a test for
  one of several texts, either anywhere in the case-folded and trimmed line or at its start.
\<close>
datatype rule_kind = Contains_one_of | Starts_with_one_of

definition classifier_rules :: "(rule_kind \<times> string list \<times> string) list" where
  "classifier_rules =
     [(Contains_one_of, [''error'', ''failed''], ''error''),
      (Contains_one_of, [''successfully'', ''done''], ''success''),
      (Contains_one_of, [''warning''], ''warning''),
      (Starts_with_one_of,
         [''installing'', ''removing'', ''checking'', ''resolving'', ''::''], ''info''),
      (Starts_with_one_of, [''package'', ''total'', ''optional''], ''dim'')]"

fun rule_applies :: "rule_kind \<Rightarrow> string list \<Rightarrow> string \<Rightarrow> bool" where
  "rule_applies Contains_one_of texts s = list_ex (\<lambda>t. sublist t s) texts"
| "rule_applies Starts_with_one_of texts s = list_ex (\<lambda>t. prefix t s) texts"

fun first_match :: "(rule_kind \<times> string list \<times> string) list \<Rightarrow> string \<Rightarrow> string option" where
  "first_match [] s = None"
| "first_match ((kind, texts, category) # rules) s =
     (if rule_applies kind texts s then Some category else first_match rules s)"

definition spec_category :: "string \<Rightarrow> string option" where
  "spec_category line = first_match classifier_rules (strip (lower line))"

text \<open>
  The stream cut at every terminator: the terminated lines, each with its terminator, and
  the fragment after the last terminator. \<open>cur\<close> is the line being read.
\<close>
fun terminated_lines :: "bytes \<Rightarrow> bytes \<Rightarrow> (bytes \<times> char) list \<times> bytes" where
  "terminated_lines cur [] = ([], cur)"
| "terminated_lines cur (b # bs) =
     (if b = LF \<or> b = CR
      then ((cur, b) # fst (terminated_lines [] bs), snd (terminated_lines [] bs))
      else terminated_lines (cur @ [b]) bs)"

text \<open>What the splitter queues for one terminated line: nothing for an empty or a
  control line, else the call that its terminator selects.\<close>
definition emitted :: "bytes \<times> char \<Rightarrow> event list" where
  "emitted l =
     (if fst l = [] \<or> startswith (fst l) ''STATUS:'' then []
      else if snd l = LF then [Append_log (fst l)]
      else [Parse_progress (fst l)])"

text \<open>A line with its terminator put back.\<close>
definition with_terminator :: "bytes \<times> char \<Rightarrow> bytes" where
  "with_terminator l = fst l @ [snd l]"

section \<open>Properties\<close>

declare flush_line_buffer.simps [simp del]
declare replace.simps [simp del]

lemmas str_defs = lower_def lower_char_def ascii_uppercase_def ascii_lowercase_def
  strip_def is_space_def whitespace_def LF_def CR_def

subsection \<open>String operations\<close>

lemma startswith_prefix: "startswith s p \<longleftrightarrow> prefix p s"
  by (induction s p rule: startswith.induct) auto

lemma contains_sublist: "contains s sub \<longleftrightarrow> sublist sub s"
  by (induction s) (auto simp: startswith_prefix sublist_Cons_right)

subsection \<open>The line splitter\<close>

lemma LF_neq_CR: "LF \<noteq> CR"
  by (simp add: LF_def CR_def)

lemma find_byte_lower_bound: "- 1 \<le> find_byte bs c"
  by (induction bs) (auto simp: Let_def)

lemma find_byte_absent: "c \<notin> set bs \<Longrightarrow> find_byte bs c = - 1"
  by (induction bs) (auto simp: Let_def)

lemma find_byte_present: "c \<in> set bs \<Longrightarrow> 0 \<le> find_byte bs c"
  by (induction bs) (auto simp: Let_def)

lemma find_byte_append:
  "c \<notin> set l \<Longrightarrow>
   find_byte (l @ bs) c = (if find_byte bs c < 0 then - 1 else int (length l) + find_byte bs c)"
  using find_byte_lower_bound [of bs c] by (induction l) (auto simp: Let_def)

lemma find_byte_at: "c \<notin> set l \<Longrightarrow> find_byte (l @ c # rest) c = int (length l)"
  by (simp add: find_byte_append)

lemma find_byte_after:
  "c \<notin> set l \<Longrightarrow> c \<noteq> t \<Longrightarrow>
   find_byte (l @ t # rest) c < 0 \<or> int (length l) < find_byte (l @ t # rest) c"
  using find_byte_lower_bound [of rest c] by (auto simp: find_byte_append Let_def)

lemma flush_unterminated:
  "LF \<notin> set buf \<Longrightarrow> CR \<notin> set buf \<Longrightarrow> flush_line_buffer buf = ([], buf)"
  by (simp add: flush_line_buffer.simps)

lemma flush_LF:
  assumes "LF \<notin> set l" "CR \<notin> set l"
  shows "flush_line_buffer (l @ LF # rest) = dispatch_line True l (flush_line_buffer rest)"
proof -
  have n: "find_byte (l @ LF # rest) LF = int (length l)"
    using assms by (simp add: find_byte_at)
  have r: "find_byte (l @ LF # rest) CR < 0 \<or> int (length l) < find_byte (l @ LF # rest) CR"
    using assms LF_neq_CR by (intro find_byte_after) auto
  have nl: "(0 \<le> find_byte (l @ LF # rest) LF \<and> (find_byte (l @ LF # rest) CR < 0 \<or> find_byte (l @ LF # rest) LF \<le> find_byte (l @ LF # rest) CR)) = True"
    using n r by auto
  show ?thesis
    by (subst flush_line_buffer.simps) (simp only: Let_def nl, simp add: n decode_def nat_add_distrib)
qed

lemma flush_CR:
  assumes "LF \<notin> set l" "CR \<notin> set l"
  shows "flush_line_buffer (l @ CR # rest) = dispatch_line False l (flush_line_buffer rest)"
proof -
  have n: "find_byte (l @ CR # rest) CR = int (length l)"
    using assms by (simp add: find_byte_at)
  have r: "find_byte (l @ CR # rest) LF < 0 \<or> int (length l) < find_byte (l @ CR # rest) LF"
    using assms LF_neq_CR by (intro find_byte_after) auto
  have nl: "(0 \<le> find_byte (l @ CR # rest) LF \<and> (find_byte (l @ CR # rest) CR < 0 \<or> find_byte (l @ CR # rest) LF \<le> find_byte (l @ CR # rest) CR)) = False"
    using n r by auto
  show ?thesis
    by (subst flush_line_buffer.simps) (simp only: Let_def nl, simp add: n decode_def nat_add_distrib)
qed

lemma terminated_split:
  assumes "LF \<in> set buf \<or> CR \<in> set buf"
  obtains l t rest where "buf = l @ t # rest" "LF \<notin> set l" "CR \<notin> set l" "t = LF \<or> t = CR"
proof -
  let ?P = "\<lambda>b. b \<noteq> LF \<and> b \<noteq> CR"
  have "dropWhile ?P buf \<noteq> []"
    using assms by (auto simp: dropWhile_eq_Nil_conv)
  then obtain t rest where d: "dropWhile ?P buf = t # rest"
    by (cases "dropWhile ?P buf") auto
  have t: "t = LF \<or> t = CR"
    using hd_dropWhile [of ?P buf] d by auto
  have "buf = takeWhile ?P buf @ t # rest"
    using takeWhile_dropWhile_id [of ?P buf] d by simp
  moreover have "LF \<notin> set (takeWhile ?P buf)" "CR \<notin> set (takeWhile ?P buf)"
    by (auto dest: set_takeWhileD)
  ultimately show thesis using t that by blast
qed

lemma flush_append:
  "flush_line_buffer (xs @ ys) =
     (fst (flush_line_buffer xs) @ fst (flush_line_buffer (snd (flush_line_buffer xs) @ ys)),
      snd (flush_line_buffer (snd (flush_line_buffer xs) @ ys)))"
proof (induction xs rule: length_induct)
  case (1 xs)
  show ?case
  proof (cases "LF \<in> set xs \<or> CR \<in> set xs")
    case False
    then show ?thesis by (simp add: flush_unterminated)
  next
    case True
    then obtain l t rest where s: "xs = l @ t # rest" "LF \<notin> set l" "CR \<notin> set l" "t = LF \<or> t = CR"
      by (rule terminated_split)
    have ih: "flush_line_buffer (rest @ ys) =
     (fst (flush_line_buffer rest) @ fst (flush_line_buffer (snd (flush_line_buffer rest) @ ys)),
      snd (flush_line_buffer (snd (flush_line_buffer rest) @ ys)))"
      using 1 s(1) by simp
    from s(4) show ?thesis
    proof
      assume "t = LF"
      then show ?thesis using s(1-3) ih
        by (simp add: flush_LF dispatch_line_def)
    next
      assume "t = CR"
      then show ?thesis using s(1-3) ih
        by (simp add: flush_CR dispatch_line_def)
    qed
  qed
qed

lemma flush_remainder_unterminated:
  "LF \<notin> set (snd (flush_line_buffer buf)) \<and> CR \<notin> set (snd (flush_line_buffer buf))"
proof (induction buf rule: length_induct)
  case (1 xs)
  show ?case
  proof (cases "LF \<in> set xs \<or> CR \<in> set xs")
    case False
    then show ?thesis by (simp add: flush_unterminated)
  next
    case True
    then obtain l t rest where s: "xs = l @ t # rest" "LF \<notin> set l" "CR \<notin> set l" "t = LF \<or> t = CR"
      by (rule terminated_split)
    have ih: "LF \<notin> set (snd (flush_line_buffer rest)) \<and> CR \<notin> set (snd (flush_line_buffer rest))"
      using 1 s(1) by simp
    from s(4) show ?thesis
    proof
      assume "t = LF"
      then show ?thesis using s(1-3) ih
        by (simp add: flush_LF dispatch_line_def)
    next
      assume "t = CR"
      then show ?thesis using s(1-3) ih
        by (simp add: flush_CR dispatch_line_def)
    qed
  qed
qed

lemma feed_chunks_flush:
  "LF \<notin> set buf \<Longrightarrow> CR \<notin> set buf \<Longrightarrow>
   feed_chunks buf chunks = flush_line_buffer (buf @ concat chunks)"
proof (induction chunks arbitrary: buf)
  case Nil
  then show ?case by (simp add: flush_unterminated)
next
  case (Cons chunk chunks)
  have r: "LF \<notin> set (snd (flush_line_buffer (buf @ chunk)))" "CR \<notin> set (snd (flush_line_buffer (buf @ chunk)))"
    using flush_remainder_unterminated by auto
  have "flush_line_buffer ((buf @ chunk) @ concat chunks) =
     (fst (flush_line_buffer (buf @ chunk)) @ fst (flush_line_buffer (snd (flush_line_buffer (buf @ chunk)) @ concat chunks)),
      snd (flush_line_buffer (snd (flush_line_buffer (buf @ chunk)) @ concat chunks)))"
    by (rule flush_append)
  then show ?case using Cons.IH [OF r]
    by (simp add: feed_def case_prod_beta)
qed

lemma terminated_lines_line:
  assumes "LF \<notin> set l" "CR \<notin> set l" "t = LF \<or> t = CR"
  shows "terminated_lines cur (l @ t # rest) =
           ((cur @ l, t) # fst (terminated_lines [] rest), snd (terminated_lines [] rest))"
  using assms by (induction l arbitrary: cur) auto

lemma terminated_lines_unterminated:
  "LF \<notin> set l \<Longrightarrow> CR \<notin> set l \<Longrightarrow> terminated_lines cur l = ([], cur @ l)"
  by (induction l arbitrary: cur) auto

lemma dispatch_line_LF: "dispatch_line True l later = (emitted (l, LF) @ fst later, snd later)"
  by (simp add: dispatch_line_def emitted_def)

lemma dispatch_line_CR: "dispatch_line False l later = (emitted (l, CR) @ fst later, snd later)"
  using LF_neq_CR by (auto simp: dispatch_line_def emitted_def)

lemma flush_terminated_lines:
  "flush_line_buffer buf =
     (concat (map emitted (fst (terminated_lines [] buf))), snd (terminated_lines [] buf))"
proof (induction buf rule: length_induct)
  case (1 xs)
  show ?case
  proof (cases "LF \<in> set xs \<or> CR \<in> set xs")
    case False
    then show ?thesis by (simp add: flush_unterminated terminated_lines_unterminated)
  next
    case True
    then obtain l t rest where s: "xs = l @ t # rest" "LF \<notin> set l" "CR \<notin> set l" "t = LF \<or> t = CR"
      by (rule terminated_split)
    have ih: "flush_line_buffer rest =
     (concat (map emitted (fst (terminated_lines [] rest))), snd (terminated_lines [] rest))"
      using 1 s(1) by simp
    have tl: "terminated_lines [] xs = (([] @ l, t) # fst (terminated_lines [] rest), snd (terminated_lines [] rest))"
      unfolding s(1) using s(2-4) by (rule terminated_lines_line)
    from s(4) show ?thesis
    proof
      assume "t = LF"
      then show ?thesis using s(1-3) ih tl
        by (simp add: flush_LF dispatch_line_LF)
    next
      assume "t = CR"
      then show ?thesis using s(1-3) ih tl
        by (simp add: flush_CR dispatch_line_CR)
    qed
  qed
qed

lemma terminated_lines_concat:
  "concat (map with_terminator (fst (terminated_lines cur bs))) @ snd (terminated_lines cur bs) = cur @ bs"
  by (induction cur bs rule: terminated_lines.induct) (auto simp: with_terminator_def)

lemma read_process_output_chunks:
  "[] \<notin> set chunks \<Longrightarrow> LF \<notin> set buf \<Longrightarrow> CR \<notin> set buf \<Longrightarrow>
   read_process_output buf notified (map (\<lambda>c. Data c False) chunks @ [Data [] False]) =
     (fst (flush_line_buffer (buf @ concat chunks))
        @ end_of_stream_flush (snd (flush_line_buffer (buf @ concat chunks))),
      End_of_stream)"
proof (induction chunks arbitrary: buf notified)
  case Nil
  then show ?case by (simp add: flush_unterminated)
next
  case (Cons chunk chunks)
  have r: "LF \<notin> set (snd (flush_line_buffer (buf @ chunk)))" "CR \<notin> set (snd (flush_line_buffer (buf @ chunk)))"
    using flush_remainder_unterminated by auto
  have c: "[] \<notin> set chunks" "chunk \<noteq> []" using Cons.prems(1) by auto
  have a: "flush_line_buffer ((buf @ chunk) @ concat chunks) =
     (fst (flush_line_buffer (buf @ chunk)) @ fst (flush_line_buffer (snd (flush_line_buffer (buf @ chunk)) @ concat chunks)),
      snd (flush_line_buffer (snd (flush_line_buffer (buf @ chunk)) @ concat chunks)))"
    by (rule flush_append)
  show ?case using Cons.IH [OF c(1) r, of False] c(2) a
    by (simp add: feed_def case_prod_beta)
qed

subsection \<open>The install panel\<close>

lemma find_milestone_Some:
  "find_milestone ms l r = Some (k, f) \<Longrightarrow> (k, f) \<in> set ms \<and> r < f \<and> contains l k"
  by (induction ms) (auto split: if_splits)

lemma download_phase_frame:
  "last_milestone (download_phase p line) = last_milestone p"
  "cancel_sensitive (download_phase p line) = cancel_sensitive p"
  "cancelled (download_phase p line) = cancelled p"
  "cancel_callback_calls (download_phase p line) = cancel_callback_calls p"
  "has_cancel_callback (download_phase p line) = has_cancel_callback p"
  by (simp_all add: download_phase_def stop_pulse_def Let_def split: option.splits prod.splits)

lemma reach_milestone_fields:
  "last_milestone (reach_milestone p k f) = f"
  "progress_fraction (reach_milestone p k f) = f"
  "cancel_sensitive (reach_milestone p k f) = (if CANCEL_CUTOFF \<le> f then False else cancel_sensitive p)"
  "cancelled (reach_milestone p k f) = cancelled p"
  "cancel_callback_calls (reach_milestone p k f) = cancel_callback_calls p"
  "has_cancel_callback (reach_milestone p k f) = has_cancel_callback p"
  by (simp_all add: reach_milestone_def stop_pulse_def Let_def split: option.splits)

lemma parse_progress_last_milestone:
  "last_milestone (parse_progress p line) =
     (case find_milestone MILESTONES (lower line) (last_milestone p) of
        None \<Rightarrow> last_milestone p | Some (k, f) \<Rightarrow> f)"
  by (simp add: parse_progress_def reach_milestone_fields download_phase_frame split: option.splits)

lemma parse_progress_cancel_sensitive:
  "cancel_sensitive (parse_progress p line) =
     (case find_milestone MILESTONES (lower line) (last_milestone p) of
        None \<Rightarrow> cancel_sensitive p
      | Some (k, f) \<Rightarrow> if CANCEL_CUTOFF \<le> f then False else cancel_sensitive p)"
  by (simp add: parse_progress_def reach_milestone_fields download_phase_frame split: option.splits)

lemma parse_progress_frame:
  "cancelled (parse_progress p line) = cancelled p"
  "cancel_callback_calls (parse_progress p line) = cancel_callback_calls p"
  "has_cancel_callback (parse_progress p line) = has_cancel_callback p"
  by (simp_all add: parse_progress_def reach_milestone_fields download_phase_frame split: option.splits)

lemma parse_progress_log_buffer:
  "parse_progress (p\<lparr>log_buffer := b\<rparr>) line = (parse_progress p line)\<lparr>log_buffer := b\<rparr>"
  by (simp add: parse_progress_def reach_milestone_def download_phase_def
      stop_pulse_def Let_def split: option.splits prod.splits)

lemma append_log_eq:
  "append_log p line =
     (parse_progress p line)\<lparr>log_buffer := log_buffer p @ [(line @ [LF], get_line_tag line)]\<rparr>"
  by (simp add: append_log_def parse_progress_log_buffer)

lemma append_log_parse_progress:
  "last_milestone (append_log p line) = last_milestone (parse_progress p line)"
  "cancel_sensitive (append_log p line) = cancel_sensitive (parse_progress p line)"
  "cancelled (append_log p line) = cancelled (parse_progress p line)"
  "cancel_callback_calls (append_log p line) = cancel_callback_calls (parse_progress p line)"
  "has_cancel_callback (append_log p line) = has_cancel_callback (parse_progress p line)"
  "progress_fraction (append_log p line) = progress_fraction (parse_progress p line)"
  "subtitle (append_log p line) = subtitle (parse_progress p line)"
  by (simp_all add: append_log_eq)

lemma parse_progress_milestone_mono: "last_milestone p \<le> last_milestone (parse_progress p line)"
  by (auto simp: parse_progress_last_milestone split: option.splits dest: find_milestone_Some)

lemma click_cancel_last_milestone: "last_milestone (click_cancel p) = last_milestone p"
  by (simp add: click_cancel_def on_cancel_def Let_def)

lemma handle_milestone_mono: "last_milestone p \<le> last_milestone (handle p e)"
  by (cases e) (simp_all add: append_log_parse_progress parse_progress_milestone_mono click_cancel_last_milestone)

lemma run_append: "run p (es @ es') = run (run p es) es'"
  by (simp add: run_def)

lemma run_milestone_mono: "last_milestone p \<le> last_milestone (run p es)"
proof (induction es arbitrary: p)
  case Nil
  then show ?case by (simp add: run_def)
next
  case (Cons e es)
  have "last_milestone p \<le> last_milestone (handle p e)" by (rule handle_milestone_mono)
  also have "\<dots> \<le> last_milestone (run (handle p e) es)" by (rule Cons.IH)
  finally show ?case by (simp add: run_def)
qed

lemma handle_insensitive: "\<not> cancel_sensitive p \<Longrightarrow> \<not> cancel_sensitive (handle p e)"
  by (cases e) (auto simp: append_log_parse_progress parse_progress_cancel_sensitive click_cancel_def
      split: option.splits if_splits)

lemma handle_cutoff_inv:
  assumes "CANCEL_CUTOFF \<le> last_milestone p \<longrightarrow> \<not> cancel_sensitive p"
  shows "CANCEL_CUTOFF \<le> last_milestone (handle p e) \<longrightarrow> \<not> cancel_sensitive (handle p e)"
proof (cases e)
  case (Append_log line)
  then show ?thesis using assms
    by (auto simp: append_log_parse_progress parse_progress_cancel_sensitive parse_progress_last_milestone
        split: option.splits)
next
  case (Parse_progress line)
  then show ?thesis using assms
    by (auto simp: parse_progress_cancel_sensitive parse_progress_last_milestone
        split: option.splits)
next
  case Click_cancel
  then show ?thesis using assms
    by (auto simp: click_cancel_def on_cancel_def Let_def)
qed

lemma run_cutoff_inv:
  "CANCEL_CUTOFF \<le> last_milestone p \<longrightarrow> \<not> cancel_sensitive p \<Longrightarrow>
   CANCEL_CUTOFF \<le> last_milestone (run p es) \<longrightarrow> \<not> cancel_sensitive (run p es)"
proof (induction es arbitrary: p)
  case Nil
  then show ?case by (simp add: run_def)
next
  case (Cons e es)
  from Cons.IH [OF handle_cutoff_inv [OF Cons.prems, of e]]
  show ?case by (simp add: run_def)
qed

lemma start_install_fields:
  "last_milestone (start_install b) = 0"
  "progress_fraction (start_install b) = 0"
  "cancel_sensitive (start_install b)"
  "\<not> cancelled (start_install b)"
  by (simp_all add: start_install_def start_pulse_def set_cancel_callback_def InstallPanel_def)

lemma handle_when_insensitive:
  "\<not> cancel_sensitive p \<Longrightarrow>
   cancelled (handle p e) = cancelled p \<and> cancel_callback_calls (handle p e) = cancel_callback_calls p"
  by (cases e) (simp_all add: append_log_parse_progress parse_progress_frame click_cancel_def)

lemma run_when_insensitive:
  "\<not> cancel_sensitive p \<Longrightarrow>
   \<not> cancel_sensitive (run p es) \<and> cancelled (run p es) = cancelled p
   \<and> cancel_callback_calls (run p es) = cancel_callback_calls p"
proof (induction es arbitrary: p)
  case Nil
  then show ?case by (simp add: run_def)
next
  case (Cons e es)
  have h: "\<not> cancel_sensitive (handle p e)" using Cons.prems by (rule handle_insensitive)
  show ?case using Cons.IH [OF h] handle_when_insensitive [OF Cons.prems, of e]
    by (simp add: run_def)
qed

lemma handle_cancelled: "cancelled p \<Longrightarrow> cancelled (handle p e)"
  by (cases e) (simp_all add: append_log_parse_progress parse_progress_frame click_cancel_def on_cancel_def Let_def)

lemma run_cancelled: "cancelled p \<Longrightarrow> cancelled (run p es)"
  by (induction es arbitrary: p) (simp_all add: run_def handle_cancelled)

lemmas re_defs = match_download_def match_speed_def match_percent_def percent_at_def
  is_digit_def digits_def int_of_digits_def digit_val_def

lemma download_phase_fraction:
  "progress_fraction (download_phase p line) = progress_fraction p
   \<or> 0.20 \<le> progress_fraction (download_phase p line)"
  by (simp add: download_phase_def stop_pulse_def Let_def split: option.splits prod.splits)

lemma milestone_below_download:
  "m \<in> insert 0 (snd ` set MILESTONES) \<Longrightarrow> m < 0.55 \<Longrightarrow> m \<le> 0.20"
  by (auto simp: MILESTONES_def)

lemma parse_progress_inv:
  assumes "last_milestone p \<in> insert 0 (snd ` set MILESTONES)"
      and "last_milestone p \<le> progress_fraction p"
  shows "last_milestone (parse_progress p line) \<in> insert 0 (snd ` set MILESTONES)
         \<and> last_milestone (parse_progress p line) \<le> progress_fraction (parse_progress p line)"
proof (cases "find_milestone MILESTONES (lower line) (last_milestone p)")
  case None
  show ?thesis
  proof (cases "0.05 \<le> last_milestone p \<and> last_milestone p < 0.55")
    case True
    then have "last_milestone p \<le> 0.20"
      using milestone_below_download [OF assms(1)] by simp
    then show ?thesis
      using None True assms download_phase_fraction [of p line]
      by (auto simp: parse_progress_def download_phase_frame)
  next
    case False
    then show ?thesis using None assms by (auto simp: parse_progress_def)
  qed
next
  case (Some a)
  obtain k f where a: "a = (k, f)" by (cases a)
  have "(k, f) \<in> set MILESTONES" using Some a find_milestone_Some by blast
  then have "f \<in> snd ` set MILESTONES" by force
  then show ?thesis using Some a
    by (simp add: parse_progress_def reach_milestone_fields)
qed

lemma handle_inv:
  assumes "last_milestone p \<in> insert 0 (snd ` set MILESTONES)"
      and "last_milestone p \<le> progress_fraction p"
  shows "last_milestone (handle p e) \<in> insert 0 (snd ` set MILESTONES)
         \<and> last_milestone (handle p e) \<le> progress_fraction (handle p e)"
proof (cases e)
  case (Append_log line)
  then show ?thesis using parse_progress_inv [OF assms, of line]
    by (simp add: append_log_parse_progress)
next
  case (Parse_progress line)
  then show ?thesis using parse_progress_inv [OF assms, of line] by simp
next
  case Click_cancel
  then show ?thesis using assms by (simp add: click_cancel_def on_cancel_def Let_def)
qed

lemma run_inv:
  "last_milestone p \<in> insert 0 (snd ` set MILESTONES) \<Longrightarrow>
   last_milestone p \<le> progress_fraction p \<Longrightarrow>
   last_milestone (run p es) \<in> insert 0 (snd ` set MILESTONES)
   \<and> last_milestone (run p es) \<le> progress_fraction (run p es)"
proof (induction es arbitrary: p)
  case Nil
  then show ?case by (simp add: run_def)
next
  case (Cons e es)
  have h: "last_milestone (handle p e) \<in> insert 0 (snd ` set MILESTONES)"
    "last_milestone (handle p e) \<le> progress_fraction (handle p e)"
    using handle_inv [OF Cons.prems, of e] by auto
  show ?case using Cons.IH [OF h] by (simp add: run_def)
qed

lemma reachable_inv:
  "last_milestone (run (start_install b) es) \<in> insert 0 (snd ` set MILESTONES)
   \<and> last_milestone (run (start_install b) es) \<le> progress_fraction (run (start_install b) es)"
  by (rule run_inv) (simp_all add: start_install_fields)

lemma set_progress_clamped:
  "0 \<le> progress_fraction (set_progress p fraction phase_text)
   \<and> progress_fraction (set_progress p fraction phase_text) \<le> 1"
  by (simp add: set_progress_def stop_pulse_def Let_def split: option.splits)

lemma handle_progress_milestone:
  "last_milestone (handle p e) \<noteq> last_milestone p \<Longrightarrow>
   progress_fraction (handle p e) = last_milestone (handle p e)
   \<and> last_milestone p < last_milestone (handle p e)"
proof (cases e)
  case (Append_log line)
  assume "last_milestone (handle p e) \<noteq> last_milestone p"
  then show ?thesis using Append_log
    by (auto simp: append_log_parse_progress parse_progress_def reach_milestone_fields
        download_phase_frame split: option.splits if_splits dest: find_milestone_Some)
next
  case (Parse_progress line)
  assume "last_milestone (handle p e) \<noteq> last_milestone p"
  then show ?thesis using Parse_progress
    by (auto simp: parse_progress_def reach_milestone_fields
        download_phase_frame split: option.splits if_splits dest: find_milestone_Some)
next
  case Click_cancel
  assume "last_milestone (handle p e) \<noteq> last_milestone p"
  then show ?thesis using Click_cancel by (simp add: click_cancel_last_milestone)
qed


lemma parse_progress_reach:
  "find_milestone MILESTONES (lower line) (last_milestone p) = Some (k, f) \<Longrightarrow>
   parse_progress p line = reach_milestone p k f"
  by (simp add: parse_progress_def)

lemma parse_progress_download:
  "find_milestone MILESTONES (lower line) (last_milestone p) = None \<Longrightarrow>
   0.05 \<le> last_milestone p \<Longrightarrow> last_milestone p < 0.55 \<Longrightarrow>
   parse_progress p line = download_phase p line"
  by (simp add: parse_progress_def)

lemma download_phase_speed:
  "\<not> contains (lower line) ''downloading'' \<Longrightarrow>
   RE_DOWNLOAD_search line = Some (speed, g2) \<Longrightarrow>
   progress_fraction (download_phase p line) = 0.20 + (of_nat (int_of_digits g2) / 100) * 0.35
   \<and> subtitle (download_phase p line) = Downloading_speed (int_of_digits g2) speed"
  by (simp add: download_phase_def stop_pulse_def Let_def)

lemma download_phase_name:
  "contains (lower line) ''downloading'' \<Longrightarrow>
   progress_fraction (download_phase p line) = progress_fraction p
   \<and> subtitle (download_phase p line) =
       (if strip (replace (strip line) ''downloading...'' []) \<noteq> []
        then Downloading_name (strip (replace (strip line) ''downloading...'' []))
        else subtitle p)"
  by (simp add: download_phase_def Let_def)

text \<open>Lines of installer output, for the sessions below.\<close>

lemma line_retrieving:
  "find_milestone MILESTONES (lower ''retrieving'') 0 = Some (''retrieving'', 0.20)"
  by (simp add: MILESTONES_def str_defs)

lemma line_processing:
  "find_milestone MILESTONES (lower ''Processing package changes...'') 0
     = Some (''processing package changes'', 0.80)"
  by (simp add: MILESTONES_def str_defs)

lemma no_keyword_58: "find_milestone MILESTONES (lower ''1.0 MiB/s 58%'') r = None"
  by (simp add: MILESTONES_def str_defs)

lemma no_keyword_10: "find_milestone MILESTONES (lower ''1.0 MiB/s 10%'') r = None"
  by (simp add: MILESTONES_def str_defs)

lemma no_keyword_300: "find_milestone MILESTONES (lower ''1.0 MiB/s 300%'') r = None"
  by (simp add: MILESTONES_def str_defs)

lemma no_keyword_999: "find_milestone MILESTONES (lower ''1.0 MiB/s 999%'') r = None"
  by (simp add: MILESTONES_def str_defs)

lemma speed_58:
  "\<not> contains (lower ''1.0 MiB/s 58%'') ''downloading''"
  "RE_DOWNLOAD_search ''1.0 MiB/s 58%'' = Some (''1.0 MiB/s'', ''58'')"
  "int_of_digits ''58'' = 58"
  by (simp_all add: re_defs str_defs)

lemma speed_10:
  "\<not> contains (lower ''1.0 MiB/s 10%'') ''downloading''"
  "RE_DOWNLOAD_search ''1.0 MiB/s 10%'' = Some (''1.0 MiB/s'', ''10'')"
  "int_of_digits ''10'' = 10"
  by (simp_all add: re_defs str_defs)

lemma speed_300:
  "\<not> contains (lower ''1.0 MiB/s 300%'') ''downloading''"
  "RE_DOWNLOAD_search ''1.0 MiB/s 300%'' = Some (''1.0 MiB/s'', ''300'')"
  "int_of_digits ''300'' = 300"
  by (simp_all add: re_defs str_defs)

lemma speed_999:
  "\<not> contains (lower ''1.0 MiB/s 999%'') ''downloading''"
  "RE_DOWNLOAD_search ''1.0 MiB/s 999%'' = Some (''1.0 MiB/s'', ''999'')"
  "int_of_digits ''999'' = 999"
  by (simp_all add: re_defs str_defs)

text \<open>The panel after the log line \<^verbatim>\<open>retrieving\<close>, and after a speed line that follows.\<close>

lemma start_install_callback:
  "has_cancel_callback (start_install b)"
  "cancel_callback_calls (start_install b) = 0"
  by (simp_all add: start_install_def start_pulse_def set_cancel_callback_def InstallPanel_def)

lemma after_retrieving:
  "last_milestone (append_log (start_install b) ''retrieving'') = 0.20"
  "progress_fraction (append_log (start_install b) ''retrieving'') = 0.20"
  "cancel_sensitive (append_log (start_install b) ''retrieving'')"
  "\<not> cancelled (append_log (start_install b) ''retrieving'')"
  "has_cancel_callback (append_log (start_install b) ''retrieving'')"
  "cancel_callback_calls (append_log (start_install b) ''retrieving'') = 0"
proof -
  have "parse_progress (start_install b) ''retrieving''
          = reach_milestone (start_install b) ''retrieving'' 0.20"
    by (rule parse_progress_reach) (simp add: start_install_fields line_retrieving)
  then show
    "last_milestone (append_log (start_install b) ''retrieving'') = 0.20"
    "progress_fraction (append_log (start_install b) ''retrieving'') = 0.20"
    "cancel_sensitive (append_log (start_install b) ''retrieving'')"
    "\<not> cancelled (append_log (start_install b) ''retrieving'')"
    "has_cancel_callback (append_log (start_install b) ''retrieving'')"
    "cancel_callback_calls (append_log (start_install b) ''retrieving'') = 0"
    by (simp_all add: append_log_parse_progress reach_milestone_fields start_install_fields
        start_install_callback CANCEL_CUTOFF_def)
qed

lemma speed_line_after_retrieving:
  assumes "\<And>r. find_milestone MILESTONES (lower line) r = None"
      and "\<not> contains (lower line) ''downloading''"
      and "RE_DOWNLOAD_search line = Some (speed, g2)"
  shows "last_milestone (parse_progress (append_log (start_install b) ''retrieving'') line) = 0.20"
    and "progress_fraction (parse_progress (append_log (start_install b) ''retrieving'') line)
        = 0.20 + (of_nat (int_of_digits g2) / 100) * 0.35"
    and "cancel_sensitive (parse_progress (append_log (start_install b) ''retrieving'') line)"
    and "\<not> cancelled (parse_progress (append_log (start_install b) ''retrieving'') line)"
    and "has_cancel_callback (parse_progress (append_log (start_install b) ''retrieving'') line)"
    and "cancel_callback_calls (parse_progress (append_log (start_install b) ''retrieving'') line) = 0"
proof -
  let ?p = "append_log (start_install b) ''retrieving''"
  have d: "parse_progress ?p line = download_phase ?p line"
    by (rule parse_progress_download) (simp_all add: after_retrieving assms(1))
  show "last_milestone (parse_progress ?p line) = 0.20"
    "cancel_sensitive (parse_progress ?p line)"
    "\<not> cancelled (parse_progress ?p line)"
    "has_cancel_callback (parse_progress ?p line)"
    "cancel_callback_calls (parse_progress ?p line) = 0"
    by (simp_all add: d download_phase_frame after_retrieving)
  show "progress_fraction (parse_progress ?p line) = 0.20 + (of_nat (int_of_digits g2) / 100) * 0.35"
    using download_phase_speed [OF assms(2,3), of ?p] by (simp add: d)
qed

lemma line_downloading:
  "find_milestone MILESTONES (lower ''firefox downloading...'') r = None"
  "contains (lower ''firefox downloading...'') ''downloading''"
  "strip (replace (strip ''firefox downloading...'') ''downloading...'' []) = ''firefox''"
  by (simp_all add: MILESTONES_def str_defs replace.simps)

subsection \<open>The milestone table (C2)\<close>

text \<open>
  C2, as stated: the table has 13 entries, every fraction lies in \<open>(0, 1]\<close>, the fractions
  ascend strictly in table order, and the cutoff is the fraction of exactly one entry.
  The fractions do not ascend strictly: \<^verbatim>\<open>installing\<close> and \<^verbatim>\<open>upgrading\<close> share the
  fraction 0.85.
\<close>
theorem milestones_not_strictly_ascending:
  "\<not> (length MILESTONES = 13 \<and> fractions_in_unit MILESTONES
      \<and> strictly_ascending (map snd MILESTONES)
      \<and> filter (\<lambda>(keyword, fraction). fraction = CANCEL_CUTOFF) MILESTONES
          = [(''processing package changes'', 0.80)])"
  by (simp add: MILESTONES_def)

text \<open>
  C2, amended: the table has 13 entries, every fraction lies in \<open>(0, 1]\<close>, the fractions
  never descend in table order and ascend strictly but for the one tie of \<^verbatim>\<open>installing\<close>
  and \<^verbatim>\<open>upgrading\<close> at 0.85, and the cutoff 0.80 is the fraction of exactly one entry,
  \<^verbatim>\<open>processing package changes\<close>.
\<close>
theorem milestones_table:
  "length MILESTONES = 13
   \<and> fractions_in_unit MILESTONES
   \<and> ascending (map snd MILESTONES)
   \<and> strictly_ascending
        (map snd (filter (\<lambda>(keyword, fraction). keyword \<noteq> ''upgrading'') MILESTONES))
   \<and> map_of MILESTONES ''installing'' = Some 0.85
   \<and> map_of MILESTONES ''upgrading'' = Some 0.85
   \<and> filter (\<lambda>(keyword, fraction). fraction = CANCEL_CUTOFF) MILESTONES
        = [(''processing package changes'', 0.80)]"
  by (simp add: MILESTONES_def fractions_in_unit_def CANCEL_CUTOFF_def)

subsection \<open>The line classifier (C7)\<close>

text \<open>
  C7: for every line, \<^verbatim>\<open>_get_line_tag\<close> returns the category that the first applicable
  rule of the specification gives on the case-folded, trimmed line (containing
  \<^verbatim>\<open>error\<close> or \<^verbatim>\<open>failed\<close>: error; containing \<^verbatim>\<open>successfully\<close> or \<^verbatim>\<open>done\<close>:
  success; containing \<^verbatim>\<open>warning\<close>: warning; starting with \<^verbatim>\<open>installing\<close>,
  \<^verbatim>\<open>removing\<close>, \<^verbatim>\<open>checking\<close>, \<^verbatim>\<open>resolving\<close> or \<^verbatim>\<open>::\<close>: info; starting with
  \<^verbatim>\<open>package\<close>, \<^verbatim>\<open>total\<close> or \<^verbatim>\<open>optional\<close>: dim; else none), and the seven lines of the
  specification get the categories it lists.
\<close>
theorem get_line_tag_first_match:
  "get_line_tag line = spec_category line
   \<and> get_line_tag ''error: could not open file'' = Some ''error''
   \<and> get_line_tag ''transaction failed'' = Some ''error''
   \<and> get_line_tag ''Done.'' = Some ''success''
   \<and> get_line_tag ''warning: dependency cycle'' = Some ''warning''
   \<and> get_line_tag ''installing firefox...'' = Some ''info''
   \<and> get_line_tag ''Packages (3): '' = Some ''dim''
   \<and> get_line_tag [] = None"
proof -
  have "get_line_tag line = spec_category line"
    by (simp add: get_line_tag_def spec_category_def classifier_rules_def Let_def
        startswith_prefix contains_sublist)
  moreover have "get_line_tag ''error: could not open file'' = Some ''error''"
    by (simp add: get_line_tag_def str_defs)
  moreover have "get_line_tag ''transaction failed'' = Some ''error''"
    by (simp add: get_line_tag_def str_defs)
  moreover have "get_line_tag ''Done.'' = Some ''success''"
    by (simp add: get_line_tag_def str_defs)
  moreover have "get_line_tag ''warning: dependency cycle'' = Some ''warning''"
    by (simp add: get_line_tag_def str_defs)
  moreover have "get_line_tag ''installing firefox...'' = Some ''info''"
    by (simp add: get_line_tag_def str_defs)
  moreover have "get_line_tag ''Packages (3): '' = Some ''dim''"
    by (simp add: get_line_tag_def str_defs)
  moreover have "get_line_tag [] = None"
    by (simp add: get_line_tag_def str_defs)
  ultimately show ?thesis by blast
qed

text \<open>The theorem at a line in capitals with white space around it, where the second
  rule is the first to apply.\<close>
theorem get_line_tag_first_match_witness:
  "get_line_tag ''  Checking keyring... DONE  '' = spec_category ''  Checking keyring... DONE  ''
   \<and> get_line_tag ''  Checking keyring... DONE  '' = Some ''success''"
  using get_line_tag_first_match [of "''  Checking keyring... DONE  ''"]
  by (simp add: get_line_tag_def str_defs)

subsection \<open>The line splitter on single lines (C6)\<close>

text \<open>
  C6: a line ended by LF is queued as a log line (\<^verbatim>\<open>append_log\<close>), a line ended by CR as
  a progress line (\<^verbatim>\<open>parse_progress\<close>); an empty line and a line that starts with
  \<^verbatim>\<open>STATUS:\<close> queue nothing; the text after the last terminator is returned as the
  remainder. The four buffers of the specification give the results it lists.
\<close>
theorem flush_line_buffer_dispatch:
  "(LF \<notin> set l \<and> CR \<notin> set l \<longrightarrow>
      flush_line_buffer (l @ LF # rest) =
        (if decode l = [] \<or> startswith (decode l) ''STATUS:'' then flush_line_buffer rest
         else (Append_log (decode l) # fst (flush_line_buffer rest),
               snd (flush_line_buffer rest)))
      \<and> flush_line_buffer (l @ CR # rest) =
        (if decode l = [] \<or> startswith (decode l) ''STATUS:'' then flush_line_buffer rest
         else (Parse_progress (decode l) # fst (flush_line_buffer rest),
               snd (flush_line_buffer rest)))
      \<and> flush_line_buffer l = ([], l))
   \<and> flush_line_buffer (''hello world'' @ [LF]) = ([Append_log ''hello world''], [])
   \<and> flush_line_buffer (''progress 50%'' @ [CR]) = ([Parse_progress ''progress 50%''], [])
   \<and> flush_line_buffer (''line1'' @ [LF] @ ''line2'' @ [LF] @ ''partial'')
        = ([Append_log ''line1'', Append_log ''line2''], ''partial'')
   \<and> flush_line_buffer (''STATUS:started'' @ [LF]) = ([], [])"
proof -
  have "flush_line_buffer (''hello world'' @ [LF]) = ([Append_log ''hello world''], [])"
    by (simp add: flush_line_buffer.simps dispatch_line_def decode_def str_defs)
  moreover have
    "flush_line_buffer (''progress 50%'' @ [CR]) = ([Parse_progress ''progress 50%''], [])"
    by (simp add: flush_line_buffer.simps dispatch_line_def decode_def str_defs)
  moreover have "flush_line_buffer (''line1'' @ [LF] @ ''line2'' @ [LF] @ ''partial'')
        = ([Append_log ''line1'', Append_log ''line2''], ''partial'')"
    by (simp add: flush_line_buffer.simps dispatch_line_def decode_def str_defs)
  moreover have "flush_line_buffer (''STATUS:started'' @ [LF]) = ([], [])"
    by (simp add: flush_line_buffer.simps dispatch_line_def decode_def str_defs)
  moreover have "LF \<notin> set l \<and> CR \<notin> set l \<longrightarrow>
      flush_line_buffer (l @ LF # rest) =
        (if decode l = [] \<or> startswith (decode l) ''STATUS:'' then flush_line_buffer rest
         else (Append_log (decode l) # fst (flush_line_buffer rest),
               snd (flush_line_buffer rest)))
      \<and> flush_line_buffer (l @ CR # rest) =
        (if decode l = [] \<or> startswith (decode l) ''STATUS:'' then flush_line_buffer rest
         else (Parse_progress (decode l) # fst (flush_line_buffer rest),
               snd (flush_line_buffer rest)))
      \<and> flush_line_buffer l = ([], l)"
    by (simp add: flush_LF flush_CR flush_unterminated dispatch_line_def decode_def)
  ultimately show ?thesis by blast
qed

text \<open>The theorem at a progress line that is followed by a control line and a fragment.\<close>
theorem flush_line_buffer_dispatch_witness:
  "LF \<notin> set ''prog 30%'' \<and> CR \<notin> set ''prog 30%''
   \<and> flush_line_buffer (''prog 30%'' @ CR # ''STATUS:done'' @ LF # ''inst'')
       = ([Parse_progress ''prog 30%''], ''inst'')"
  using flush_line_buffer_dispatch [of "''prog 30%''" "''STATUS:done'' @ LF # ''inst''"]
    flush_line_buffer_dispatch [of "''STATUS:done''" "''inst''"]
    flush_line_buffer_dispatch [of "''inst''" "[]"]
  by (simp add: decode_def str_defs)

subsection \<open>Chunk boundaries (C5)\<close>

text \<open>
  C5: feeding a byte stream to the line buffer in chunks, cut anywhere, queues the same
  calls in the same order, with the same remainder, as one call on the whole stream; so
  does the reading loop up to the end of the stream. The calls queued are those of the
  terminated lines of the stream that are neither empty nor control lines, each routed by
  its terminator, and the lines with their terminators and the remainder make up the
  stream: only the skipped lines and their terminators are not passed on.
\<close>
theorem chunk_boundaries_irrelevant:
  "feed_chunks [] chunks = feed_chunks [] [concat chunks]
   \<and> feed_chunks [] chunks = flush_line_buffer (concat chunks)
   \<and> ([] \<notin> set chunks \<longrightarrow>
        read_process_output [] False (map (\<lambda>c. Data c False) chunks @ [Data [] False]) =
          (fst (flush_line_buffer (concat chunks))
             @ end_of_stream_flush (snd (flush_line_buffer (concat chunks))),
           End_of_stream))
   \<and> flush_line_buffer stream =
        (concat (map emitted (fst (terminated_lines [] stream))),
         snd (terminated_lines [] stream))
   \<and> concat (map with_terminator (fst (terminated_lines [] stream)))
        @ snd (terminated_lines [] stream) = stream"
proof -
  have "feed_chunks [] chunks = flush_line_buffer (concat chunks)"
    using feed_chunks_flush [of "[]" chunks] by simp
  moreover have "feed_chunks [] [concat chunks] = flush_line_buffer (concat chunks)"
    using feed_chunks_flush [of "[]" "[concat chunks]"] by simp
  moreover have "[] \<notin> set chunks \<longrightarrow>
        read_process_output [] False (map (\<lambda>c. Data c False) chunks @ [Data [] False]) =
          (fst (flush_line_buffer (concat chunks))
             @ end_of_stream_flush (snd (flush_line_buffer (concat chunks))),
           End_of_stream)"
    using read_process_output_chunks [of chunks "[]" False] by simp
  moreover have "concat (map with_terminator (fst (terminated_lines [] stream)))
        @ snd (terminated_lines [] stream) = stream"
    using terminated_lines_concat [of "[]" stream] by simp
  ultimately show ?thesis
    using flush_terminated_lines [of stream] by simp
qed

text \<open>The theorem at a stream cut inside a line, between CR and LF, and inside the
  control prefix.\<close>
theorem chunk_boundaries_irrelevant_witness:
  "[] \<notin> set [''li'', ''ne1'' @ [CR], LF # ''STA'', ''TUS:x'' @ [LF] @ ''line2'' @ [LF] @ ''part'']
   \<and> feed_chunks [] [''li'', ''ne1'' @ [CR], LF # ''STA'', ''TUS:x'' @ [LF] @ ''line2'' @ [LF] @ ''part'']
       = ([Parse_progress ''line1'', Append_log ''line2''], ''part'')
   \<and> read_process_output [] False
        (map (\<lambda>c. Data c False)
           [''li'', ''ne1'' @ [CR], LF # ''STA'', ''TUS:x'' @ [LF] @ ''line2'' @ [LF] @ ''part'']
         @ [Data [] False])
       = ([Parse_progress ''line1'', Append_log ''line2'', Append_log ''part''], End_of_stream)
   \<and> flush_line_buffer (''line1'' @ [CR, LF] @ ''STATUS:x'' @ [LF] @ ''line2'' @ [LF] @ ''part'')
       = ([Parse_progress ''line1'', Append_log ''line2''], ''part'')"
  using chunk_boundaries_irrelevant
    [of "[''li'', ''ne1'' @ [CR], LF # ''STA'', ''TUS:x'' @ [LF] @ ''line2'' @ [LF] @ ''part'']"
        "''line1'' @ [CR, LF] @ ''STATUS:x'' @ [LF] @ ''line2'' @ [LF] @ ''part''"]
  by (simp add: flush_line_buffer.simps feed_def dispatch_line_def end_of_stream_flush_def
      decode_def str_defs)

subsection \<open>Monotonicity of the fraction (C1)\<close>

text \<open>
  C1, as stated: for every sequence of lines, each fraction shown is at least every
  fraction shown before in the session. After the milestone \<^verbatim>\<open>retrieving\<close>, a speed line
  with 58 percent shows 0.403 and a later speed line with 10 percent shows 0.235.
\<close>
theorem progress_fraction_can_decrease:
  "\<not> progress_fraction (run (start_install ''Firefox'')
          [Append_log ''retrieving'', Parse_progress ''1.0 MiB/s 58%''])
     \<le> progress_fraction (run (start_install ''Firefox'')
          [Append_log ''retrieving'', Parse_progress ''1.0 MiB/s 58%'',
           Parse_progress ''1.0 MiB/s 10%''])"
proof -
  let ?p2 = "parse_progress (append_log (start_install ''Firefox'') ''retrieving'') ''1.0 MiB/s 58%''"
  have p2: "last_milestone ?p2 = 0.20" "progress_fraction ?p2 = 0.403"
    by (simp_all add: speed_line_after_retrieving [OF no_keyword_58 speed_58(1,2)] speed_58(3))
  have "parse_progress ?p2 ''1.0 MiB/s 10%'' = download_phase ?p2 ''1.0 MiB/s 10%''"
    by (rule parse_progress_download) (simp_all add: p2 no_keyword_10)
  then have "progress_fraction (parse_progress ?p2 ''1.0 MiB/s 10%'') = 0.235"
    by (simp add: download_phase_speed [OF speed_10(1,2)] speed_10(3))
  then show ?thesis by (simp add: run_def p2)
qed
text \<open>
  C1, amended: for every sequence of events of a session, the last-reached milestone
  fraction never decreases; and whenever an event changes it, the fraction shown is the new
  milestone fraction, which is greater than the one before. (The fractions that the
  download phase shows between two milestones are not ordered among themselves.)
\<close>
theorem last_milestone_monotone:
  "last_milestone (run p es) \<le> last_milestone (run p (es @ later))
   \<and> (last_milestone (handle p e) \<noteq> last_milestone p \<longrightarrow>
        progress_fraction (handle p e) = last_milestone (handle p e)
        \<and> last_milestone p < last_milestone (handle p e))"
  using run_milestone_mono [of "run p es" later] handle_progress_milestone [of p e]
  by (auto simp: run_append)
text \<open>The theorem at a session that reaches \<^verbatim>\<open>retrieving\<close> and then reads a speed line.\<close>
theorem last_milestone_monotone_witness:
  "last_milestone (start_install ''Firefox'') = 0
   \<and> last_milestone (run (start_install ''Firefox'') [Append_log ''retrieving'']) = 0.20
   \<and> 0.20 \<le> last_milestone (run (start_install ''Firefox'')
        ([Append_log ''retrieving''] @ [Parse_progress ''1.0 MiB/s 58%'']))
   \<and> progress_fraction (handle (start_install ''Firefox'') (Append_log ''retrieving'')) = 0.20"
  using last_milestone_monotone [of "start_install ''Firefox''" "[Append_log ''retrieving'']"
      "[Parse_progress ''1.0 MiB/s 58%'']" "Append_log ''retrieving''"]
  by (simp add: run_def start_install_fields after_retrieving)
subsection \<open>The cancellation cutoff (C3)\<close>

text \<open>
  C3, as stated: once the fraction of the session is at least 0.80, however it was
  produced, cancelling is disabled for the rest of the session. After \<^verbatim>\<open>retrieving\<close>, a
  speed line with 300 percent shows the fraction 1.25; the cancel button is still
  sensitive, and a click on it sets the cancellation flag and calls the cancel callback.
\<close>
theorem cancel_enabled_above_cutoff:
  "CANCEL_CUTOFF \<le> progress_fraction (run (start_install ''Firefox'')
          [Append_log ''retrieving'', Parse_progress ''1.0 MiB/s 300%''])
   \<and> cancel_sensitive (run (start_install ''Firefox'')
          [Append_log ''retrieving'', Parse_progress ''1.0 MiB/s 300%''])
   \<and> \<not> cancelled (run (start_install ''Firefox'')
          [Append_log ''retrieving'', Parse_progress ''1.0 MiB/s 300%''])
   \<and> cancelled (run (start_install ''Firefox'')
          [Append_log ''retrieving'', Parse_progress ''1.0 MiB/s 300%'', Click_cancel])
   \<and> cancel_callback_calls (run (start_install ''Firefox'')
          [Append_log ''retrieving'', Parse_progress ''1.0 MiB/s 300%'', Click_cancel]) = 1"
  by (simp add: speed_line_after_retrieving [OF no_keyword_300 speed_300(1,2)] speed_300(3)
      run_def CANCEL_CUTOFF_def click_cancel_def on_cancel_def Let_def)
text \<open>
  C3, amended: once the last-reached milestone fraction of a session is at least the
  cutoff 0.80, cancelling is disabled for the rest of the session: whatever events follow,
  the cancel button is insensitive, a click on it changes nothing, and the cancellation
  flag and the number of calls of the cancel callback stay as they were.
\<close>
theorem cancel_disabled_after_cutoff:
  assumes "CANCEL_CUTOFF \<le> last_milestone (run (start_install browser_label) es)"
  shows "\<not> cancel_sensitive (run (start_install browser_label) (es @ later))
     \<and> click_cancel (run (start_install browser_label) (es @ later))
         = run (start_install browser_label) (es @ later)
     \<and> cancelled (run (start_install browser_label) (es @ later))
         = cancelled (run (start_install browser_label) es)
     \<and> cancel_callback_calls (run (start_install browser_label) (es @ later))
         = cancel_callback_calls (run (start_install browser_label) es)"
proof -
  have "CANCEL_CUTOFF \<le> last_milestone (start_install browser_label) \<longrightarrow>
        \<not> cancel_sensitive (start_install browser_label)"
    by (simp add: start_install_fields CANCEL_CUTOFF_def)
  from run_cutoff_inv [OF this, of es] assms
  have "\<not> cancel_sensitive (run (start_install browser_label) es)" by simp
  from run_when_insensitive [OF this, of later]
  show ?thesis by (simp add: run_append click_cancel_def)
qed
text \<open>The theorem at a session that reaches \<^verbatim>\<open>processing package changes\<close>, followed by
  two clicks on the cancel button with a milestone line between them.\<close>
theorem cancel_disabled_after_cutoff_witness:
  "CANCEL_CUTOFF \<le> last_milestone (run (start_install ''Firefox'') [Append_log ''Processing package changes...''])
   \<and> \<not> cancelled (run (start_install ''Firefox'') ([Append_log ''Processing package changes...''] @ [Click_cancel, Parse_progress ''installing firefox'', Click_cancel]))
   \<and> cancel_callback_calls (run (start_install ''Firefox'') ([Append_log ''Processing package changes...''] @ [Click_cancel, Parse_progress ''installing firefox'', Click_cancel])) = 0"
proof -
  have r: "parse_progress (start_install ''Firefox'') ''Processing package changes...''
          = reach_milestone (start_install ''Firefox'') ''processing package changes'' 0.80"
    by (rule parse_progress_reach) (simp add: start_install_fields line_processing)
  have h: "CANCEL_CUTOFF \<le> last_milestone (run (start_install ''Firefox'') [Append_log ''Processing package changes...''])"
    by (simp add: run_def append_log_parse_progress r reach_milestone_fields CANCEL_CUTOFF_def)
  have "\<not> cancelled (run (start_install ''Firefox'') [Append_log ''Processing package changes...''])"
    "cancel_callback_calls (run (start_install ''Firefox'') [Append_log ''Processing package changes...'']) = 0"
    by (simp_all add: run_def append_log_parse_progress r reach_milestone_fields
        start_install_fields start_install_callback)
  then show ?thesis
    using h cancel_disabled_after_cutoff [OF h, of "[Click_cancel, Parse_progress ''installing firefox'', Click_cancel]"]
    by simp
qed
subsection \<open>The end of an installation (C4)\<close>

text \<open>
  C4: \<^verbatim>\<open>_perform_browser_install\<close> ends once the reading loop has returned or was never
  entered. With the cancellation flag set it ends as cancelled, whatever the exit code; else
  it ends as succeeded if and only if the child was spawned with its output captured, the
  reading loop returned without an error and the child exited with code 0; else (a spawn
  failure, an error while reading, the wait of 600 seconds exceeded, another exit code) it
  ends as failed. The flag is read twice and is never reset between the reads.
\<close>
theorem install_outcome:
  assumes "cancelled_at_wait \<longrightarrow> cancelled_at_end"
  shows "(popen = Popen_ok True \<and> reader = Waiting \<longrightarrow>
           perform_browser_install popen reader waited cancelled_at_wait cancelled_at_end = None)
    \<and> (\<not> (popen = Popen_ok True \<and> reader = Waiting) \<longrightarrow>
         (\<exists>logged. perform_browser_install popen reader waited cancelled_at_wait cancelled_at_end =
            Some (logged,
              if cancelled_at_end then Cancelled
              else if popen = Popen_ok True \<and> (reader = End_of_stream \<or> reader = Terminated)
                      \<and> waited = Returncode 0
                   then Succeeded
              else Failed)))"
  using assms
  by (auto simp: perform_browser_install_def try_install_def
      split: popen_result.splits reader_end.splits wait_result.splits)
text \<open>The theorem at seven attempts: a success, a cancellation seen by the reading
  loop, an exit code 1, a spawn failure, a timeout, a reading loop that has not returned,
  and a cancellation with exit code 0 that the reading loop has not seen.\<close>
theorem install_outcome_witness:
  "perform_browser_install (Popen_ok True) End_of_stream (Returncode 0) False False
     = Some ([], Succeeded)
   \<and> perform_browser_install (Popen_ok True) Terminated (Returncode 0) False True
     = Some ([], Cancelled)
   \<and> perform_browser_install (Popen_ok True) End_of_stream (Returncode 1) False False
     = Some ([], Failed)
   \<and> perform_browser_install (Popen_OSError ''No such file'') End_of_stream (Returncode 0) False False
     = Some ([Append_log ''No such file''], Failed)
   \<and> perform_browser_install (Popen_ok True) End_of_stream (TimeoutExpired ''timed out'') False False
     = Some ([Append_log ''timed out''], Failed)
   \<and> perform_browser_install (Popen_ok True) Waiting (Returncode 0) False False = None
   \<and> perform_browser_install (Popen_ok True) End_of_stream (Returncode 0) True True
     = Some ([], Cancelled)"
  using install_outcome [of False False "Popen_ok True" End_of_stream "Returncode 0"]
    install_outcome [of True True "Popen_ok True" End_of_stream "Returncode 0"]
    install_outcome [of False True "Popen_ok True" Terminated "Returncode 0"]
    install_outcome [of False False "Popen_ok True" End_of_stream "Returncode 1"]
    install_outcome [of False False "Popen_OSError ''No such file''" End_of_stream "Returncode 0"]
    install_outcome [of False False "Popen_ok True" End_of_stream "TimeoutExpired ''timed out''"]
    install_outcome [of False False "Popen_ok True" Waiting "Returncode 0"]
  by (simp add: perform_browser_install_def try_install_def)
subsection \<open>The download phase (C8)\<close>

text \<open>
  C8: when no milestone qualifies for a line and the last-reached milestone fraction lies
  in \<open>[0.05, 0.55)\<close>: if the case-folded line contains \<^verbatim>\<open>downloading\<close>, the fraction
  shown stays and the subtitle names the item (the trimmed line without
  \<^verbatim>\<open>downloading...\<close>, when that is not empty); otherwise, if the line matches the speed
  pattern with the percentage \<open>g2\<close>, the fraction shown is \<open>0.20 + (g2 / 100) * 0.35\<close>. The
  milestone fraction stays, and in every state that a session reaches the fraction shown
  afterwards is not below it.
\<close>
theorem download_phase_progress:
  assumes "find_milestone MILESTONES (lower line) (last_milestone p) = None"
      and "0.05 \<le> last_milestone p" and "last_milestone p < 0.55"
  shows "(contains (lower line) ''downloading'' \<longrightarrow>
            progress_fraction (parse_progress p line) = progress_fraction p
            \<and> subtitle (parse_progress p line) =
                (if strip (replace (strip line) ''downloading...'' []) \<noteq> []
                 then Downloading_name (strip (replace (strip line) ''downloading...'' []))
                 else subtitle p))
    \<and> (\<not> contains (lower line) ''downloading'' \<longrightarrow>
          (\<forall>speed g2. RE_DOWNLOAD_search line = Some (speed, g2) \<longrightarrow>
             progress_fraction (parse_progress p line)
               = 0.20 + (of_nat (int_of_digits g2) / 100) * 0.35
             \<and> subtitle (parse_progress p line) = Downloading_speed (int_of_digits g2) speed)
          \<and> (RE_DOWNLOAD_search line = None \<longrightarrow> parse_progress p line = p))
    \<and> last_milestone (parse_progress p line) = last_milestone p
    \<and> ((\<exists>browser_label es. p = run (start_install browser_label) es) \<longrightarrow>
          last_milestone p \<le> progress_fraction (parse_progress p line))"
proof -
  have d: "parse_progress p line = download_phase p line"
    using assms by (rule parse_progress_download)
  have "(\<exists>browser_label es. p = run (start_install browser_label) es) \<longrightarrow>
          last_milestone p \<le> progress_fraction (parse_progress p line)"
  proof
    assume "\<exists>browser_label es. p = run (start_install browser_label) es"
    then obtain b es where p: "p = run (start_install b) es" by blast
    have i: "last_milestone p \<in> insert 0 (snd ` set MILESTONES)"
        "last_milestone p \<le> progress_fraction p"
      using reachable_inv [of b es] p by auto
    have "last_milestone p \<le> 0.20"
      using milestone_below_download [OF i(1) assms(3)] .
    then show "last_milestone p \<le> progress_fraction (parse_progress p line)"
      using download_phase_fraction [of p line] i(2) by (auto simp: d)
  qed
  moreover have "\<not> contains (lower line) ''downloading'' \<longrightarrow> RE_DOWNLOAD_search line = None \<longrightarrow> parse_progress p line = p"
    by (simp add: d download_phase_def)
  ultimately show ?thesis
    by (auto simp: d download_phase_speed download_phase_name download_phase_frame)
qed
text \<open>The theorem after the milestone \<^verbatim>\<open>retrieving\<close>, at a line that names a download and
  at a speed line.\<close>
theorem download_phase_progress_witness:
  "find_milestone MILESTONES (lower ''firefox downloading...'')
      (last_milestone (run (start_install ''Firefox'') [Append_log ''retrieving''])) = None
   \<and> find_milestone MILESTONES (lower ''1.0 MiB/s 58%'')
      (last_milestone (run (start_install ''Firefox'') [Append_log ''retrieving''])) = None
   \<and> 0.05 \<le> last_milestone (run (start_install ''Firefox'') [Append_log ''retrieving''])
   \<and> last_milestone (run (start_install ''Firefox'') [Append_log ''retrieving'']) < 0.55
   \<and> contains (lower ''firefox downloading...'') ''downloading''
   \<and> progress_fraction (parse_progress (run (start_install ''Firefox'') [Append_log ''retrieving''])
        ''firefox downloading...'') = 0.20
   \<and> subtitle (parse_progress (run (start_install ''Firefox'') [Append_log ''retrieving''])
        ''firefox downloading...'') = Downloading_name ''firefox''
   \<and> \<not> contains (lower ''1.0 MiB/s 58%'') ''downloading''
   \<and> RE_DOWNLOAD_search ''1.0 MiB/s 58%'' = Some (''1.0 MiB/s'', ''58'')
   \<and> progress_fraction (parse_progress (run (start_install ''Firefox'') [Append_log ''retrieving''])
        ''1.0 MiB/s 58%'') = 0.403
   \<and> last_milestone (run (start_install ''Firefox'') [Append_log ''retrieving''])
        \<le> progress_fraction (parse_progress (run (start_install ''Firefox'') [Append_log ''retrieving''])
        ''1.0 MiB/s 58%'')"
proof -
  let ?p = "run (start_install ''Firefox'') [Append_log ''retrieving'']"
  have p: "?p = append_log (start_install ''Firefox'') ''retrieving''"
    by (simp add: run_def)
  have h: "0.05 \<le> last_milestone ?p" "last_milestone ?p < 0.55"
    by (simp_all add: p after_retrieving)
  have r: "\<exists>browser_label es. ?p = run (start_install browser_label) es" by blast
  from download_phase_progress [OF line_downloading(1) h]
    download_phase_progress [OF no_keyword_58 h] r
  show ?thesis
    unfolding p
    by (simp add: line_downloading no_keyword_58 speed_58 after_retrieving
        del: RE_DOWNLOAD_search.simps)
qed
subsection \<open>The range of the fraction (C9)\<close>

text \<open>
  C9 says that every fraction shown lies in \<open>[0, 1]\<close>. \<^verbatim>\<open>set_progress\<close> clamps its
  argument (lemma \<open>set_progress_clamped\<close>); the download phase of \<^verbatim>\<open>_parse_progress\<close>
  does not, and the pattern admits percentages up to 999: after \<^verbatim>\<open>retrieving\<close>, a speed
  line with 999 percent passes 3.6965 to the progress bar.
\<close>
theorem download_fraction_above_one:
  "progress_fraction (run (start_install ''Firefox'')
      [Append_log ''retrieving'', Parse_progress ''1.0 MiB/s 999%'']) = 3.6965
   \<and> \<not> progress_fraction (run (start_install ''Firefox'')
      [Append_log ''retrieving'', Parse_progress ''1.0 MiB/s 999%'']) \<le> 1"
  by (simp add: speed_line_after_retrieving [OF no_keyword_999 speed_999(1,2)] speed_999(3)
      run_def)
subsection \<open>Lines without a milestone (C10)\<close>

text \<open>
  C10: a line for which no milestone qualifies leaves the last-reached milestone fraction
  and the sensitivity of the cancel button as they were. The milestone fraction changes
  only at a qualifying milestone, to its fraction, which is greater; the cancel button
  changes only from sensitive to insensitive, at a qualifying milestone whose fraction is at
  least the cutoff. The download phase changes neither, and \<^verbatim>\<open>append_log\<close> does to
  both what \<^verbatim>\<open>parse_progress\<close> does.
\<close>
theorem no_milestone_frame:
  "(find_milestone MILESTONES (lower line) (last_milestone p) = None \<longrightarrow>
      last_milestone (parse_progress p line) = last_milestone p
      \<and> cancel_sensitive (parse_progress p line) = cancel_sensitive p)
   \<and> (last_milestone (parse_progress p line) \<noteq> last_milestone p \<longrightarrow>
        (\<exists>keyword fraction.
           find_milestone MILESTONES (lower line) (last_milestone p) = Some (keyword, fraction)
           \<and> last_milestone p < fraction
           \<and> last_milestone (parse_progress p line) = fraction))
   \<and> (cancel_sensitive (parse_progress p line) \<noteq> cancel_sensitive p \<longrightarrow>
        cancel_sensitive p \<and>
        (\<exists>keyword fraction.
           find_milestone MILESTONES (lower line) (last_milestone p) = Some (keyword, fraction)
           \<and> CANCEL_CUTOFF \<le> fraction))
   \<and> last_milestone (download_phase p line) = last_milestone p
   \<and> cancel_sensitive (download_phase p line) = cancel_sensitive p
   \<and> last_milestone (append_log p line) = last_milestone (parse_progress p line)
   \<and> cancel_sensitive (append_log p line) = cancel_sensitive (parse_progress p line)"
  by (auto simp: parse_progress_last_milestone parse_progress_cancel_sensitive
      download_phase_frame append_log_parse_progress
      split: option.splits if_splits dest: find_milestone_Some)
text \<open>The theorem at a speed line after \<^verbatim>\<open>retrieving\<close>, where no milestone qualifies, and
  at the line \<^verbatim>\<open>Processing package changes...\<close> in the initial state, where one does.\<close>
theorem no_milestone_frame_witness:
  "find_milestone MILESTONES (lower ''1.0 MiB/s 58%'')
      (last_milestone (append_log (start_install ''Firefox'') ''retrieving'')) = None
   \<and> last_milestone (parse_progress (append_log (start_install ''Firefox'') ''retrieving'')
        ''1.0 MiB/s 58%'') = 0.20
   \<and> cancel_sensitive (parse_progress (append_log (start_install ''Firefox'') ''retrieving'')
        ''1.0 MiB/s 58%'')
   \<and> last_milestone (parse_progress (start_install ''Firefox'') ''Processing package changes...'')
        \<noteq> last_milestone (start_install ''Firefox'')
   \<and> cancel_sensitive (parse_progress (start_install ''Firefox'') ''Processing package changes...'')
        \<noteq> cancel_sensitive (start_install ''Firefox'')
   \<and> find_milestone MILESTONES (lower ''Processing package changes...'')
        (last_milestone (start_install ''Firefox'')) = Some (''processing package changes'', 0.80)"
proof -
  have r: "parse_progress (start_install ''Firefox'') ''Processing package changes...''
          = reach_milestone (start_install ''Firefox'') ''processing package changes'' 0.80"
    by (rule parse_progress_reach) (simp add: start_install_fields line_processing)
  show ?thesis
    using no_milestone_frame [of "''1.0 MiB/s 58%''" "append_log (start_install ''Firefox'') ''retrieving''"]
      no_milestone_frame [of "''Processing package changes...''" "start_install ''Firefox''"]
    by (simp add: no_keyword_58 after_retrieving r reach_milestone_fields start_install_fields
        line_processing CANCEL_CUTOFF_def)
qed

end
